theory Spec2Isabelle
  imports Complex_Main "HOL-Library.Log_Nat" "HOL-Library.Code_Target_Numeral"
begin

section \<open>Values, messages and the controller's state\<close>

text \<open>
  The skill \<open>RemotePlatform\<close> (src/__init__.py) receives bus messages whose payload
  \<open>message.data\<close> is a decoded JSON object. The handlers test the payload dynamically
  (\<open>in\<close>, \<open>is True\<close>, \<open>isinstance(_, int)\<close>, truthiness, indexing), so payload values keep
  their Python kind. A float in a payload is a finite one, given by its value.
\<close>

datatype pyval =
    PNone
  | PBool bool
  | PInt int
  | PFloat real
  | PStr string
  | PList "pyval list"
  | PDict "(string \<times> pyval) list"

datatype py_error =
    KeyError | TypeError | AttributeError | IndexError | NameError | StopIteration
  | OverflowError | ValueError

subsection \<open>Floats\<close>

text \<open>
  A Python float is an IEEE 754 double: a finite value, an infinity or NaN (the sign of a
  zero plays no part here). Clock readings and deadlines are floats, an offset is an \<open>int\<close>
  or a float. The initial \<open>idle_next = 0\<close> is an \<open>int\<close>; it compares like the float zero.
\<close>

datatype pyfloat = Fin real | PInf | NInf | NaN

instantiation pyfloat :: zero
begin

definition zero_pyfloat :: pyfloat where
  "zero_pyfloat = Fin 0"

instance ..

end

datatype pynum = NInt int | NFloat pyfloat

text \<open>
  Rounding to the nearest double, ties to even. The doubles around \<open>x\<close> are the multiples
  of \<open>2 ^ ulp_pow x / 2 ^ 1074\<close>: 53 significant bits, and the spacing \<open>1 / 2 ^ 1074\<close> of the
  subnormal numbers at least. A result beyond the largest double is an infinity.
\<close>

definition dscale :: real where
  "dscale = 2 ^ 1074"

definition max_double :: real where
  "max_double = (2 ^ 53 - 1) * 2 ^ 971"

definition ulp_pow :: "real \<Rightarrow> nat" where
  "ulp_pow x = floorlog 2 (nat \<lfloor>\<bar>x\<bar> * dscale\<rfloor>) - 53"

definition round_half_even :: "real \<Rightarrow> int" where
  "round_half_even q =
     (let f = \<lfloor>q\<rfloor>; r = q - of_int f
      in if r < 1 / 2 then f else if 1 / 2 < r then f + 1 else if even f then f else f + 1)"

definition round_real :: "real \<Rightarrow> real" where
  "round_real x =
     of_int (round_half_even (x * dscale / 2 ^ ulp_pow x)) * 2 ^ ulp_pow x / dscale"

definition round_double :: "real \<Rightarrow> pyfloat" where
  "round_double x =
     (let y = round_real x
      in if max_double < y then PInf else if y < - max_double then NInf else Fin y)"

text \<open>\<open>float(n)\<close> for an \<open>int\<close>, as the mixed operations apply it: an \<open>int\<close> that rounds beyond
  the largest double raises \<open>OverflowError\<close>.\<close>

definition float_of_int :: "int \<Rightarrow> py_error + pyfloat" where
  "float_of_int n =
     (case round_double (of_int n) of Fin r \<Rightarrow> Inr (Fin r) | _ \<Rightarrow> Inl OverflowError)"

text \<open>\<open>a + b\<close> and \<open>a < b\<close> on floats; neither raises.\<close>

fun float_add :: "pyfloat \<Rightarrow> pyfloat \<Rightarrow> pyfloat" where
  "float_add (Fin a) (Fin b) = round_double (a + b)"
| "float_add NaN b = NaN"
| "float_add a NaN = NaN"
| "float_add PInf NInf = NaN"
| "float_add NInf PInf = NaN"
| "float_add PInf b = PInf"
| "float_add a PInf = PInf"
| "float_add NInf b = NInf"
| "float_add a NInf = NInf"

fun float_less :: "pyfloat \<Rightarrow> pyfloat \<Rightarrow> bool" where
  "float_less (Fin a) (Fin b) = (a < b)"
| "float_less NaN b = False"
| "float_less a NaN = False"
| "float_less a NInf = False"
| "float_less PInf b = False"
| "float_less NInf b = True"
| "float_less a PInf = True"

text \<open>\<open>time.monotonic() + offset\<close>, for the clock reading \<open>t\<close>.\<close>

definition clock_plus :: "real \<Rightarrow> pynum \<Rightarrow> py_error + pyfloat" where
  "clock_plus t offset =
     (case offset of
        NInt n \<Rightarrow>
          (case float_of_int n of Inl e \<Rightarrow> Inl e | Inr f \<Rightarrow> Inr (float_add (Fin t) f))
      | NFloat f \<Rightarrow> Inr (float_add (Fin t) f))"

text \<open>\<open>int(x)\<close> on a number: a finite float is truncated towards zero, an infinity raises
  \<open>OverflowError\<close>, NaN raises \<open>ValueError\<close>.\<close>

definition py_trunc :: "real \<Rightarrow> int" where
  "py_trunc x = (if 0 \<le> x then \<lfloor>x\<rfloor> else \<lceil>x\<rceil>)"

fun py_int :: "pynum \<Rightarrow> py_error + int" where
  "py_int (NInt n) = Inr n"
| "py_int (NFloat (Fin r)) = Inr (py_trunc r)"
| "py_int (NFloat PInf) = Inl OverflowError"
| "py_int (NFloat NInf) = Inl OverflowError"
| "py_int (NFloat NaN) = Inl ValueError"

record message =
  msg_type :: string
  data :: "string \<rightharpoonup> pyval"

text \<open>\<open>Message(type)\<close>: the payload defaults to the empty dict.\<close>

definition Message :: "string \<Rightarrow> message" where
  "Message ty = \<lparr>msg_type = ty, data = Map.empty\<rparr>"

datatype log_level = Debug | Info | Error | Exception

text \<open>
  \<open>skill_setting_obj["configs"]\<close> is bound to the list object \<open>self.skill_setting_list\<close>
  itself, not to a copy: the dict holds a reference.
\<close>

datatype obj_ref = Ref_skill_setting_list

text \<open>
  The fields of \<open>__init__\<close> (lines 46-57), the two dict-like stores of the host skill
  (\<open>self.gui\<close>, \<open>self.settings\<close>) and what the controller hands to its collaborators:
  \<^item> \<open>scheduled\<close>: the host scheduler's pending one-shot events, by name, each with the
    delay given to \<open>schedule_event\<close>; scheduling adds an event to those pending under the
    name, \<open>cancel_scheduled_event\<close> removes all events of the name;
  \<^item> \<open>emitted\<close>: the messages the skill's own code passes to \<open>self.bus.emit\<close>, oldest
    first (what the host classes send on their own, for the scheduler or the GUI, is not
    recorded);
  \<^item> \<open>log_out\<close>: the calls of \<open>self.log\<close>, as level and format template.
  \<open>idle_screens\<close> is a Python dict with arbitrary hashable keys, kept as an association
  list in insertion order.
\<close>

record state =
  idle_screens :: "(pyval \<times> pyval) list"
  override_idle :: "(message \<times> real) option"
  idle_next :: pyfloat
  has_show_page :: bool
  gui :: "string \<rightharpoonup> pyval"
  settings :: "string \<rightharpoonup> pyval"
  scheduled :: "string \<rightharpoonup> int list"
  emitted :: "message list"
  log_out :: "(log_level \<times> string) list"
  skill_setting_list :: "(string \<rightharpoonup> pyval) list"
  skill_setting_obj :: "string \<rightharpoonup> obj_ref"

text \<open>
  A handler either returns or raises. A raise does not undo the assignments made before it,
  so the error carries the state at the raise.
\<close>

type_synonym outcome = "(py_error \<times> state) + state"

text \<open>What was raised, if anything, and the state the call leaves.\<close>

definition raised :: "outcome \<Rightarrow> py_error option" where
  "raised r = (case r of Inl (e, s) \<Rightarrow> Some e | Inr s \<Rightarrow> None)"

definition post :: "outcome \<Rightarrow> state" where
  "post r = (case r of Inl (e, s) \<Rightarrow> s | Inr s \<Rightarrow> s)"

subsection \<open>The Python operations the handlers use\<close>

text \<open>Truth value of an object, as \<open>if x:\<close> and \<open>and\<close> test it.\<close>

fun truthy :: "pyval \<Rightarrow> bool" where
  "truthy PNone = False"
| "truthy (PBool b) = b"
| "truthy (PInt i) = (i \<noteq> 0)"
| "truthy (PFloat r) = (r \<noteq> 0)"
| "truthy (PStr s) = (s \<noteq> [])"
| "truthy (PList xs) = (xs \<noteq> [])"
| "truthy (PDict kvs) = (kvs \<noteq> [])"

text \<open>\<open>sub in s\<close> on two strings: \<open>sub\<close> occurs in \<open>s\<close> as a contiguous run.\<close>

fun str_contains :: "string \<Rightarrow> string \<Rightarrow> bool" where
  "str_contains sub [] = (sub = [])"
| "str_contains sub (c # cs) = (take (length sub) (c # cs) = sub \<or> str_contains sub cs)"

text \<open>
  \<open>sub in v\<close> for a string \<open>sub\<close>: substring test on a string, membership in a list, key
  membership in a dict, \<open>TypeError\<close> on any other object.
\<close>

fun py_in :: "string \<Rightarrow> pyval \<Rightarrow> py_error + bool" where
  "py_in sub (PStr s) = Inr (str_contains sub s)"
| "py_in sub (PList xs) = Inr (PStr sub \<in> set xs)"
| "py_in sub (PDict kvs) = Inr (sub \<in> fst ` set kvs)"
| "py_in sub PNone = Inl TypeError"
| "py_in sub (PBool b) = Inl TypeError"
| "py_in sub (PInt i) = Inl TypeError"
| "py_in sub (PFloat r) = Inl TypeError"

text \<open>\<open>s.endswith(suf)\<close>.\<close>

definition endswith :: "string \<Rightarrow> string \<Rightarrow> bool" where
  "endswith s suf \<longleftrightarrow> length suf \<le> length s \<and> drop (length s - length suf) s = suf"

text \<open>\<open>v[0]\<close>: the keys of a decoded JSON object are strings, so \<open>0\<close> is never one.\<close>

fun py_getitem0 :: "pyval \<Rightarrow> py_error + pyval" where
  "py_getitem0 (PList []) = Inl IndexError"
| "py_getitem0 (PList (x # xs)) = Inr x"
| "py_getitem0 (PStr []) = Inl IndexError"
| "py_getitem0 (PStr (c # cs)) = Inr (PStr [c])"
| "py_getitem0 (PDict kvs) = Inl KeyError"
| "py_getitem0 PNone = Inl TypeError"
| "py_getitem0 (PBool b) = Inl TypeError"
| "py_getitem0 (PInt i) = Inl TypeError"
| "py_getitem0 (PFloat r) = Inl TypeError"

text \<open>\<open>v.endswith('idle.qml')\<close>: only a string has the method.\<close>

fun py_endswith :: "pyval \<Rightarrow> string \<Rightarrow> py_error + bool" where
  "py_endswith (PStr s) suf = Inr (endswith s suf)"
| "py_endswith v suf = Inl AttributeError"

text \<open>
  Dict keys: lists and dicts are unhashable; numbers compare by value across \<open>bool\<close>,
  \<open>int\<close> and \<open>float\<close> (\<open>True == 1 == 1.0\<close>), everything else by kind and content.
\<close>

fun hashable :: "pyval \<Rightarrow> bool" where
  "hashable (PList xs) = False"
| "hashable (PDict kvs) = False"
| "hashable v = True"

fun num_of :: "pyval \<Rightarrow> real option" where
  "num_of (PBool b) = Some (if b then 1 else 0)"
| "num_of (PInt i) = Some (real_of_int i)"
| "num_of (PFloat r) = Some r"
| "num_of v = None"

definition key_eq :: "pyval \<Rightarrow> pyval \<Rightarrow> bool" where
  "key_eq a b =
     (case (num_of a, num_of b) of
        (Some x, Some y) \<Rightarrow> x = y
      | (None, None) \<Rightarrow> a = b
      | _ \<Rightarrow> False)"

text \<open>\<open>d.get(k)\<close> and \<open>d[k] = v\<close> on a dict with hashable keys; an overwrite keeps the
  stored key object and its position.\<close>

fun dict_get :: "(pyval \<times> pyval) list \<Rightarrow> pyval \<Rightarrow> pyval option" where
  "dict_get [] k = None"
| "dict_get ((k', v') # d) k = (if key_eq k' k then Some v' else dict_get d k)"

fun dict_set :: "(pyval \<times> pyval) list \<Rightarrow> pyval \<Rightarrow> pyval \<Rightarrow> (pyval \<times> pyval) list" where
  "dict_set [] k v = [(k, v)]"
| "dict_set ((k', v') # d) k v =
     (if key_eq k' k then (k', v) # d else (k', v') # dict_set d k v)"

text \<open>
  \<open>'{}'.format(v)\<close>, the text of \<open>str(v)\<close>, for \<open>None\<close>, booleans, integers and strings.
  The rendering of a float, a list or a dict is left unspecified.
\<close>

fun digits :: "nat \<Rightarrow> string" where
  "digits n =
     (if n < 10 then [''0123456789'' ! n]
      else digits (n div 10) @ [''0123456789'' ! (n mod 10)])"

declare digits.simps [simp del]

fun py_str :: "pyval \<Rightarrow> string" where
  "py_str (PStr s) = s"
| "py_str PNone = ''None''"
| "py_str (PBool b) = (if b then ''True'' else ''False'')"
| "py_str (PInt i) = (if i < 0 then CHR ''-'' # digits (nat (- i)) else digits (nat i))"

subsection \<open>Logging and emitting\<close>

definition log_call :: "log_level \<Rightarrow> string \<Rightarrow> state \<Rightarrow> state" where
  "log_call lvl txt s = s\<lparr>log_out := log_out s @ [(lvl, txt)]\<rparr>"

definition bus_emit :: "message \<Rightarrow> state \<Rightarrow> state" where
  "bus_emit m s = s\<lparr>emitted := emitted s @ [m]\<rparr>"

definition cancel_scheduled_event :: "string \<Rightarrow> state \<Rightarrow> state" where
  "cancel_scheduled_event name s = s\<lparr>scheduled := (scheduled s)(name := None)\<rparr>"

definition schedule_event :: "int \<Rightarrow> string \<Rightarrow> state \<Rightarrow> state" where
  "schedule_event when name s =
     s\<lparr>scheduled := (scheduled s)
          (name \<mapsto> (case scheduled s name of None \<Rightarrow> [] | Some ws \<Rightarrow> ws) @ [when])\<rparr>"

section \<open>The idle-screen mechanism\<close>

text \<open>
  \<open>time.monotonic()\<close> is read from outside: every function that reads the clock takes its
  readings as arguments, in the order of the reads. \<open>time.sleep\<close> changes no state of the
  controller, and \<open>idle_lock\<close> only serialises callers.
\<close>

text \<open>\<open>__init__\<close>; the argument is what the host has loaded into \<open>self.settings\<close>.\<close>

definition RemotePlatform_init :: "(string \<rightharpoonup> pyval) \<Rightarrow> state" where
  "RemotePlatform_init persisted =
     \<lparr>idle_screens = [], override_idle = None, idle_next = 0, has_show_page = False,
      gui = Map.empty,
      settings = persisted(''auto_brightness'' \<mapsto> PBool False, ''use_listening_beep'' \<mapsto> PBool True),
      scheduled = Map.empty, emitted = [], log_out = [],
      skill_setting_list = [], skill_setting_obj = Map.empty\<rparr>"

text \<open>
  The subscriptions made by \<open>initialize\<close> (lines 70-124), as event name and method name, in
  the order of the calls (\<open>gui.register_handler\<close>, \<open>add_event\<close> and \<open>bus.on\<close> alike).
\<close>

definition subscriptions :: "(string \<times> string) list" where
  "subscriptions =
     [(''mycroft.gui.screen.close'', ''force_idle_screen''),
      (''mycroft.gui.screen.close'', ''force_idle_screen''),
      (''mycroft.gui.screen.close'', ''force_idle_screen''),
      (''mycroft.gui.forceHome'', ''force_home''),
      (''recognizer_loop:record_end'', ''handle_listener_ended''),
      (''mycroft.speech.recognition.unknown'', ''handle_failed_stt''),
      (''mycroft.skill.handler.start'', ''on_handler_started''),
      (''recognizer_loop:sleep'', ''on_handler_sleep''),
      (''mycroft.awoken'', ''on_handler_awoken''),
      (''enclosure.mouth.reset'', ''on_handler_mouth_reset''),
      (''recognizer_loop:audio_output_end'', ''on_handler_mouth_reset''),
      (''enclosure.mouth.viseme_list'', ''on_handler_speaking''),
      (''gui.page.show'', ''on_gui_page_show''),
      (''gui.page_interaction'', ''on_gui_page_interaction''),
      (''mycroft.skills.initialized'', ''reset_face''),
      (''mycroft.mark2.register_idle'', ''on_register_idle''),
      (''gui.skill.settings.show'', ''handle_skill_setting_show''),
      (''mycroft.device.settings'', ''handle_device_settings''),
      (''mycroft.device.settings'', ''handle_device_settings''),
      (''mycroft.device.settings.homescreen'', ''handle_device_homescreen_settings''),
      (''mycroft.device.show.idle'', ''show_idle_screen''),
      (''mycroft.device.settings.skillconfig'', ''handle_device_skill_settings''),
      (''mycroft.device.set.idle'', ''set_idle_screen'')]"

subsection \<open>Registry and selection\<close>

definition on_register_idle :: "message \<Rightarrow> state \<Rightarrow> outcome" where
  "on_register_idle m s =
     (case (data m ''name'', data m ''id'') of
        (Some n, Some i) \<Rightarrow>
          if hashable n
          then Inr (log_call Info ''Registered {}''
                      (s\<lparr>idle_screens := dict_set (idle_screens s) n i\<rparr>))
          else Inl (TypeError, s)
      | _ \<Rightarrow> Inr (log_call Error ''Malformed idle screen registration received'' s))"

definition save_resting_screen :: "state \<Rightarrow> outcome" where
  "save_resting_screen s =
     (let s1 = log_call Debug ''Saving resting screen'' s in
      case gui s1 ''selected'' of
        None \<Rightarrow> Inl (KeyError, s1)
      | Some v \<Rightarrow>
          Inr (s1\<lparr>gui := (gui s1)(''selectedScreen'' \<mapsto> v),
                  settings := (settings s1)(''selected'' \<mapsto> v)\<rparr>))"

definition set_idle_screen :: "message \<Rightarrow> state \<Rightarrow> outcome" where
  "set_idle_screen m s =
     (case data m ''selected'' of
        None \<Rightarrow> Inl (KeyError, s)
      | Some v \<Rightarrow> save_resting_screen (s\<lparr>gui := (gui s)(''selected'' \<mapsto> v)\<rparr>))"

subsection \<open>The idle timer\<close>

definition cancel_idle_event :: "state \<Rightarrow> state" where
  "cancel_idle_event s = cancel_scheduled_event ''IdleCheck'' (s\<lparr>idle_next := 0\<rparr>)"

text \<open>
  \<open>start_idle_event(offset, weak)\<close>: \<open>t_gate\<close> is the clock reading of the test in line 317,
  \<open>t_set\<close> the one of the assignment in line 324. The sum of line 317 stands before the
  \<open>try\<close>, so its \<open>OverflowError\<close> leaves the function. What lines 323 to 331 raise (the sum
  again, \<open>int(offset)\<close> on an infinity or NaN) is caught in line 332 and logged, with the
  assignments made so far kept: \<open>int(offset)\<close> is evaluated after the pending event has been
  cancelled and before \<open>schedule_event\<close> is called. \<open>self.log.exception(repr(e))\<close> is
  recorded with the template \<open>{}\<close>. What the host makes of the delay it is given, a
  negative one included, is not part of the source.
\<close>

definition start_idle_event :: "real \<Rightarrow> real \<Rightarrow> pynum \<Rightarrow> bool \<Rightarrow> state \<Rightarrow> outcome" where
  "start_idle_event t_gate t_set offset weak s =
     (case clock_plus t_gate offset of
        Inl e \<Rightarrow> Inl (e, s)
      | Inr g \<Rightarrow>
          if float_less g (idle_next s)
          then Inr (log_call Info ''No update, before next time'' s)
          else
            let s1 = log_call Info ''Starting idle event'' s in
            (case (if weak then Inr s1
                   else (case clock_plus t_set offset of
                           Inl e \<Rightarrow> Inl e
                         | Inr d \<Rightarrow> Inr (s1\<lparr>idle_next := d\<rparr>))) of
               Inl e \<Rightarrow> Inr (log_call Exception ''{}'' s1)
             | Inr s2 \<Rightarrow>
                 let s3 = cancel_scheduled_event ''IdleCheck'' s2 in
                 (case py_int offset of
                    Inl e \<Rightarrow> Inr (log_call Exception ''{}'' s3)
                  | Inr n \<Rightarrow>
                      Inr (log_call Info ''Showing idle screen in {} seconds''
                             (schedule_event n ''IdleCheck'' s3)))))"

definition show_idle_screen :: "state \<Rightarrow> outcome" where
  "show_idle_screen s =
     (let s1 = log_call Debug ''Showing idle screen'' s in
      case override_idle s1 of
        Some (m, t0) \<Rightarrow>
          Inr (bus_emit m (log_call Debug ''Returning to override idle screen'' s1))
      | None \<Rightarrow>
          (case gui s1 ''selected'' of
             None \<Rightarrow> Inr s1
           | Some sel \<Rightarrow>
               if idle_screens s1 = [] then Inr s1
               else
                 let s2 = log_call Debug ''Showing Idle screen for {}'' s1 in
                 if \<not> hashable sel then Inl (TypeError, s2)
                 else
                   (case dict_get (idle_screens s2) sel of
                      None \<Rightarrow> Inr s2
                    | Some screen \<Rightarrow>
                        if truthy screen
                        then Inr (bus_emit (Message (py_str screen @ ''.idle'')) s2)
                        else Inr s2)))"

text \<open>
  \<open>force_idle_screen\<close>: the clock is read only while an override is stored. The elapsed
  time is compared as the exact difference of the two readings: rounding the difference
  is monotone and keeps 2 and 3, so it takes no elapsed time of at most 2 above 2 and
  none of at least 3 down to 2.
\<close>

definition force_idle_screen :: "real \<Rightarrow> state \<Rightarrow> outcome" where
  "force_idle_screen t s =
     (case override_idle s of
        Some (m, t0) \<Rightarrow>
          if t - t0 > 2 then show_idle_screen (s\<lparr>override_idle := None\<rparr>)
          else show_idle_screen s
      | None \<Rightarrow> show_idle_screen s)"

subsection \<open>Pages shown by other skills\<close>

text \<open>\<open>isinstance(v, int)\<close> with the integer's value; a \<open>bool\<close> is an \<open>int\<close> in Python.\<close>

fun as_int :: "pyval \<Rightarrow> int option" where
  "as_int (PBool b) = Some (if b then 1 else 0)"
| "as_int (PInt i) = Some i"
| "as_int v = None"

text \<open>\<open>d.get(k, default)\<close>.\<close>

definition get_default :: "(string \<rightharpoonup> pyval) \<Rightarrow> string \<Rightarrow> pyval \<Rightarrow> pyval" where
  "get_default d k dflt = (case d k of Some v \<Rightarrow> v | None \<Rightarrow> dflt)"

text \<open>
  \<open>on_gui_page_show\<close>: \<open>t1\<close> is the first clock reading of the branch taken (line 241, or
  line 317 inside \<open>start_idle_event\<close>), \<open>t2\<close> the second one (line 324).
\<close>

definition on_gui_page_show :: "real \<Rightarrow> real \<Rightarrow> message \<Rightarrow> state \<Rightarrow> outcome" where
  "on_gui_page_show t1 t2 m s =
     (case py_in ''remote-platform'' (get_default (data m) ''__from'' (PStr [])) of
        Inl e \<Rightarrow> Inl (e, s)
      | Inr True \<Rightarrow> Inr s
      | Inr False \<Rightarrow>
          let s1 = s\<lparr>has_show_page := True\<rparr>;
              override = get_default (data m) ''__idle'' PNone
          in
          if override = PBool True
          then Inr ((cancel_idle_event s1)\<lparr>override_idle := Some (m, t1)\<rparr>)
          else
            (case as_int override of
               Some n \<Rightarrow>
                 start_idle_event t1 t2 (NInt n) False
                   (log_call Info ''Overriding idle timer to {} seconds'' s1)
             | None \<Rightarrow>
                 (case data m ''page'' of
                    None \<Rightarrow> Inl (KeyError, s1)
                  | Some p \<Rightarrow>
                      if \<not> truthy p then Inr s1
                      else
                        (case py_getitem0 p of
                           Inl e \<Rightarrow> Inl (e, s1)
                         | Inr x \<Rightarrow>
                             (case py_endswith x ''idle.qml'' of
                                Inl e \<Rightarrow> Inl (e, s1)
                              | Inr b \<Rightarrow>
                                  if \<not> b then start_idle_event t1 t2 (NInt 30) False s1
                                  else Inr s1)))))"

definition on_gui_page_interaction :: "real \<Rightarrow> real \<Rightarrow> message \<Rightarrow> state \<Rightarrow> outcome" where
  "on_gui_page_interaction t1 t2 m s =
     start_idle_event t1 t2 (NInt 30) False
       (log_call Info ''Resetting idle counter to 30 seconds'' s)"

text \<open>
  \<open>on_handler_complete\<close>: the \<open>try\<close> block reads \<open>self.hourglass_info\<close>, which the class
  never assigns, so it raises \<open>AttributeError\<close> at once and the \<open>except\<close> swallows it.
\<close>

definition on_handler_complete :: "message \<Rightarrow> state \<Rightarrow> outcome" where
  "on_handler_complete m s =
     (let handler = get_default (data m) ''handler'' (PStr []) in
      case py_in ''RemotePlatform'' handler of
        Inl e \<Rightarrow> Inl (e, s)
      | Inr True \<Rightarrow> Inr s
      | Inr False \<Rightarrow>
          (case py_in ''TimeSkill.update_display'' handler of
             Inl e \<Rightarrow> Inl (e, s)
           | Inr True \<Rightarrow> Inr s
           | Inr False \<Rightarrow> Inr (s\<lparr>has_show_page := False\<rparr>)))"

text \<open>
  A sequence of \<open>start_idle_event\<close> calls; a call is its two clock readings, its offset
  and its \<open>weak\<close> flag. Each call is made on the state the one before left, whether that
  one returned or raised.
\<close>

type_synonym idle_call = "real \<times> real \<times> pynum \<times> bool"

fun start_idle_events :: "idle_call list \<Rightarrow> state \<Rightarrow> state" where
  "start_idle_events [] s = s"
| "start_idle_events ((t_gate, t_set, offset, weak) # cs) s =
     start_idle_events cs (post (start_idle_event t_gate t_set offset weak s))"

text \<open>
  A call whose two sums \<open>time.monotonic() + offset\<close> are finite floats: its offset is an
  \<open>int\<close> in float range or a finite float, and adding it to the clock does not overflow.
  For such a call, the deadline it is tested with in line 317 and the deadline it asks for
  in line 324.
\<close>

fun finite_call :: "idle_call \<Rightarrow> bool" where
  "finite_call (t_gate, t_set, offset, weak) =
     (case (clock_plus t_gate offset, clock_plus t_set offset) of
        (Inr (Fin g), Inr (Fin d)) \<Rightarrow> True
      | _ \<Rightarrow> False)"

fun gate_deadline :: "idle_call \<Rightarrow> real" where
  "gate_deadline (t_gate, t_set, offset, weak) =
     (case clock_plus t_gate offset of Inr (Fin g) \<Rightarrow> g | _ \<Rightarrow> 0)"

fun requested_deadline :: "idle_call \<Rightarrow> real" where
  "requested_deadline (t_gate, t_set, offset, weak) =
     (case clock_plus t_set offset of Inr (Fin d) \<Rightarrow> d | _ \<Rightarrow> 0)"

fun is_weak :: "idle_call \<Rightarrow> bool" where
  "is_weak (t_gate, t_set, offset, weak) = weak"

text \<open>The clock is monotonic: the second reading of a call is not before the first. In a
  call that takes no time the two readings agree.\<close>

fun monotone_reading :: "idle_call \<Rightarrow> bool" where
  "monotone_reading (t_gate, t_set, offset, weak) = (t_gate \<le> t_set)"

fun single_reading :: "idle_call \<Rightarrow> bool" where
  "single_reading (t_gate, t_set, offset, weak) = (t_gate = t_set)"

text \<open>Running handlers one after the other; a raise ends the run.\<close>

fun run_handlers :: "(state \<Rightarrow> outcome) list \<Rightarrow> state \<Rightarrow> outcome" where
  "run_handlers [] s = Inr s"
| "run_handlers (h # hs) s = (case h s of Inl e \<Rightarrow> Inl e | Inr s' \<Rightarrow> run_handlers hs s')"

subsection \<open>Skill settings\<close>

text \<open>
  \<open>handle_skill_setting_show\<close>. The \<open>==\<close> between the stored and the received
  \<open>skill_id\<close> is the argument \<open>eq\<close>: nothing proved below depends on how two payload values
  compare. \<open>update_setting\<close> is the \<open>next(...)\<close> over the generator followed by the assignment
  to the item found. The last line reads the name \<open>skill_setting_obj\<close>, which is neither a
  local nor a global of the module. \<open>self.log.info(a)\<close> is recorded with the template \<open>{}\<close>.
\<close>

fun update_setting ::
  "(pyval \<Rightarrow> pyval \<Rightarrow> bool) \<Rightarrow> (string \<rightharpoonup> pyval) list \<Rightarrow> (string \<rightharpoonup> pyval) \<Rightarrow>
     py_error + (string \<rightharpoonup> pyval) list" where
  "update_setting eq [] d = Inl StopIteration"
| "update_setting eq (item # items) d =
     (case item ''skill_id'' of
        None \<Rightarrow> Inl KeyError
      | Some a \<Rightarrow>
          (case d ''skill_id'' of
             None \<Rightarrow> Inl KeyError
           | Some b \<Rightarrow>
               if eq a b
               then (case d ''current_value'' of
                       None \<Rightarrow> Inl KeyError
                     | Some v \<Rightarrow> Inr (item(''current_value'' \<mapsto> v) # items))
               else (case update_setting eq items d of
                       Inl e \<Rightarrow> Inl e
                     | Inr items' \<Rightarrow> Inr (item # items'))))"

definition dump_skill_settings :: "state \<Rightarrow> outcome" where
  "dump_skill_settings s =
     Inl (NameError,
          s\<lparr>skill_setting_obj := (skill_setting_obj s)(''configs'' \<mapsto> Ref_skill_setting_list)\<rparr>)"

definition handle_skill_setting_show ::
  "(pyval \<Rightarrow> pyval \<Rightarrow> bool) \<Rightarrow> message \<Rightarrow> state \<Rightarrow> outcome" where
  "handle_skill_setting_show eq m s =
     (case data m ''method'' of
        None \<Rightarrow> Inl (KeyError, s)
      | Some method \<Rightarrow>
          if method = PStr ''set'' then
            (case (data m ''skill_id'', data m ''setting_key'', data m ''setting_type'',
                   data m ''current_value'', data m ''available_values'') of
               (Some i, Some k, Some t, Some c, Some a) \<Rightarrow>
                 dump_skill_settings
                   (s\<lparr>skill_setting_list := skill_setting_list s @
                        [[''skill_id'' \<mapsto> i, ''setting_key'' \<mapsto> k, ''setting_type'' \<mapsto> t,
                          ''current_value'' \<mapsto> c, ''available_values'' \<mapsto> a]]\<rparr>)
             | _ \<Rightarrow> Inl (KeyError, s))
          else if method = PStr ''update'' then
            (case update_setting eq (skill_setting_list s) (data m) of
               Inl e \<Rightarrow> Inl (e, s)
             | Inr items \<Rightarrow>
                 dump_skill_settings (log_call Info ''{}'' (s\<lparr>skill_setting_list := items\<rparr>)))
          else dump_skill_settings (log_call Error ''no method defined'' s))"

section \<open>Concrete inputs\<close>

definition fresh :: state where
  "fresh = RemotePlatform_init Map.empty"

text \<open>The controller with an idle timer pending for time \<open>d\<close>.\<close>

definition pending :: "int \<Rightarrow> state" where
  "pending d = post (start_idle_event 0 0 (NInt d) False fresh)"

text \<open>Four calls, each taking one time unit between its two clock readings.\<close>

definition four_calls :: "idle_call list" where
  "four_calls =
     [(0, 1, NInt 10, False), (2, 3, NInt 30, False), (4, 5, NInt 50, True),
      (6, 7, NInt 5, False)]"

definition page_shown :: "(string \<rightharpoonup> pyval) \<Rightarrow> message" where
  "page_shown d = \<lparr>msg_type = ''gui.page.show'', data = d\<rparr>"

definition register_idle :: "(string \<rightharpoonup> pyval) \<Rightarrow> message" where
  "register_idle d = \<lparr>msg_type = ''mycroft.mark2.register_idle'', data = d\<rparr>"

definition set_idle :: "(string \<rightharpoonup> pyval) \<Rightarrow> message" where
  "set_idle d = \<lparr>msg_type = ''mycroft.device.set.idle'', data = d\<rparr>"

definition handler_complete :: "(string \<rightharpoonup> pyval) \<Rightarrow> message" where
  "handler_complete d = \<lparr>msg_type = ''mycroft.skill.handler.complete'', data = d\<rparr>"

definition idle15 :: message where
  "idle15 = page_shown [''__from'' \<mapsto> PStr ''skill-weather'', ''__idle'' \<mapsto> PInt 15,
     ''page'' \<mapsto> PList [PStr ''weather.qml'']]"

definition suppress :: message where
  "suppress = page_shown [''__from'' \<mapsto> PStr ''skill-video'', ''__idle'' \<mapsto> PBool True,
     ''page'' \<mapsto> PList [PStr ''player.qml'']]"

definition no_page :: message where
  "no_page = page_shown [''__from'' \<mapsto> PStr ''skill-weather'']"

text \<open>Screen \<open>B\<close> registered and selected, and an override stored at time 10.\<close>

definition overridden :: state where
  "overridden = fresh\<lparr>idle_screens := [(PStr ''B'', PStr ''id2'')],
     gui := [''selected'' \<mapsto> PStr ''B''], override_idle := Some (suppress, 10)\<rparr>"

definition clock_done :: message where
  "clock_done = handler_complete [''handler'' \<mapsto> PStr ''TimeSkill.update_display'']"

definition joke_done :: message where
  "joke_done = handler_complete [''handler'' \<mapsto> PStr ''JokingSkill.handle_joke'']"

section \<open>Properties of the rounding\<close>

text \<open>
  Rounding is monotone, and it keeps a value with at most 53 significant bits: the small
  integers and their quotients by powers of two.
\<close>

lemma round_half_even_range: "round_half_even q = \<lfloor>q\<rfloor> \<or> round_half_even q = \<lfloor>q\<rfloor> + 1"
  by (simp add: round_half_even_def Let_def)

lemma round_half_even_of_int [simp]: "round_half_even (of_int n) = n"
  by (simp add: round_half_even_def)

lemma round_half_even_mono: assumes "q \<le> q'" shows "round_half_even q \<le> round_half_even q'"
proof (cases "\<lfloor>q\<rfloor> = \<lfloor>q'\<rfloor>")
  case True
  with assms show ?thesis
    by (auto simp add: round_half_even_def Let_def)
next
  case False
  with assms have "\<lfloor>q\<rfloor> < \<lfloor>q'\<rfloor>" by (simp add: floor_mono order.strict_iff_order)
  moreover have "round_half_even q \<le> \<lfloor>q\<rfloor> + 1" using round_half_even_range [of q] by auto
  moreover have "\<lfloor>q'\<rfloor> \<le> round_half_even q'" using round_half_even_range [of q'] by auto
  ultimately show ?thesis by linarith
qed

lemma round_half_even_le_int: "q \<le> of_int n \<Longrightarrow> round_half_even q \<le> n"
  using round_half_even_mono [of q "of_int n"] by simp

lemma round_half_even_ge_int: "of_int n \<le> q \<Longrightarrow> n \<le> round_half_even q"
  using round_half_even_mono [of "of_int n" q] by simp

lemma round_half_even_minus: "round_half_even (- q) = - round_half_even q"
proof (cases "q \<in> \<int>")
  case True
  then obtain n where "q = of_int n" by (auto elim: Ints_cases)
  then show ?thesis by (simp flip: of_int_minus)
next
  case False
  then have ne: "q \<noteq> of_int \<lfloor>q\<rfloor>" by (metis Ints_of_int)
  then have fl: "\<lfloor>- q\<rfloor> = - \<lfloor>q\<rfloor> - 1"
    by (simp add: floor_minus ceiling_altdef)
  have lt: "of_int \<lfloor>q\<rfloor> < q" using ne of_int_floor_le [of q] by linarith
  show ?thesis
    using lt by (auto simp add: round_half_even_def Let_def fl)
qed


lemma dscale_pos [simp]: "0 < dscale"
  by (simp add: dscale_def)

lemma dscale_nonneg [simp]: "0 \<le> dscale"
  by (simp add: dscale_def)

lemma dscale_neq0 [simp]: "dscale \<noteq> 0"
  by (simp add: dscale_def)

lemma two_power_diff:
  assumes "E \<le> k"
  shows "(2 :: real) ^ k / 2 ^ E = of_int (2 ^ (k - E))"
proof -
  from assms have "(2 :: real) ^ k = 2 ^ (k - E) * 2 ^ E"
    by (simp flip: power_add)
  then show ?thesis by simp
qed

lemma ulp_pow_minus [simp]: "ulp_pow (- x) = ulp_pow x"
  by (simp add: ulp_pow_def)

lemma round_real_minus: "round_real (- x) = - round_real x"
  by (simp add: round_real_def round_half_even_minus)

lemma ulp_pow_mono: "\<bar>x\<bar> \<le> \<bar>y\<bar> \<Longrightarrow> ulp_pow x \<le> ulp_pow y"
  unfolding ulp_pow_def
  by (intro diff_le_mono floorlog_mono nat_mono floor_mono mult_right_mono) simp_all

lemma round_real_scaled:
  "round_real x * dscale = of_int (round_half_even (x * dscale / 2 ^ ulp_pow x)) * 2 ^ ulp_pow x"
  by (simp add: round_real_def)

lemma round_real_le_power:
  assumes "x * dscale \<le> 2 ^ k" and "ulp_pow x \<le> k"
  shows "round_real x * dscale \<le> 2 ^ k"
proof -
  let ?E = "ulp_pow x"
  have "x * dscale / 2 ^ ?E \<le> 2 ^ k / (2 ^ ?E :: real)"
    using assms(1) by (simp add: divide_right_mono)
  also have "\<dots> = of_int (2 ^ (k - ?E))"
    using assms(2) by (rule two_power_diff)
  finally have "round_half_even (x * dscale / 2 ^ ?E) \<le> 2 ^ (k - ?E)"
    by (rule round_half_even_le_int)
  then have "real_of_int (round_half_even (x * dscale / 2 ^ ?E)) \<le> 2 ^ (k - ?E)"
    by (metis of_int_le_iff of_int_numeral of_int_power)
  then have "real_of_int (round_half_even (x * dscale / 2 ^ ?E)) * 2 ^ ?E \<le> 2 ^ (k - ?E) * 2 ^ ?E"
    by (simp add: mult_right_mono)
  also have "\<dots> = (2 ^ k :: real)"
    using assms(2) by (simp flip: power_add)
  finally show ?thesis by (simp add: round_real_scaled)
qed

lemma round_real_ge_power:
  assumes "2 ^ k \<le> x * dscale" and "ulp_pow x \<le> k"
  shows "2 ^ k \<le> round_real x * dscale"
proof -
  let ?E = "ulp_pow x"
  have "of_int (2 ^ (k - ?E)) = 2 ^ k / (2 ^ ?E :: real)"
    using assms(2) by (rule two_power_diff [symmetric])
  also have "\<dots> \<le> x * dscale / 2 ^ ?E"
    using assms(1) by (simp add: divide_right_mono)
  finally have "2 ^ (k - ?E) \<le> round_half_even (x * dscale / 2 ^ ?E)"
    by (rule round_half_even_ge_int)
  then have "2 ^ (k - ?E) \<le> real_of_int (round_half_even (x * dscale / 2 ^ ?E))"
    by (metis of_int_le_iff of_int_numeral of_int_power)
  then have "2 ^ (k - ?E) * 2 ^ ?E \<le> real_of_int (round_half_even (x * dscale / 2 ^ ?E)) * 2 ^ ?E"
    by (simp add: mult_right_mono)
  moreover have "2 ^ (k - ?E) * 2 ^ ?E = (2 ^ k :: real)"
    using assms(2) by (simp flip: power_add)
  ultimately show ?thesis by (simp add: round_real_scaled)
qed

lemma round_real_mono_pos:
  assumes "0 < y" and "x \<le> y" and "ulp_pow x < ulp_pow y"
  shows "round_real x \<le> round_real y"
proof -
  let ?n = "\<lambda>z. nat \<lfloor>\<bar>z\<bar> * dscale\<rfloor>"
  let ?L = "\<lambda>z. floorlog 2 (?n z)"
  have Ly: "53 < ?L y" and LxLy: "?L x < ?L y"
    using assms(3) unfolding ulp_pow_def by linarith+
  then have ny: "0 < ?n y"
    by (metis floorlog_eq_zero_iff gr0I not_less0 le_zero_eq)
  have "2 ^ (?L y - 1) \<le> ?n y"
    using floorlog_bounds [of "?n y" 2] ny by simp
  then have "(2 :: real) ^ (?L y - 1) \<le> real (?n y)"
    by (metis of_nat_le_iff of_nat_numeral of_nat_power)
  also have "\<dots> \<le> y * dscale"
    using assms(1) by simp 
  finally have Py: "(2 :: real) ^ (?L y - 1) \<le> y * dscale" .
  have Ey: "ulp_pow y \<le> ?L y - 1" by (simp add: ulp_pow_def)
  have Ex: "ulp_pow x \<le> ?L y - 1" using assms(3) Ey by simp
  have Px: "x * dscale \<le> 2 ^ (?L y - 1)"
  proof (cases "0 < x")
    case False
    then have "x * dscale \<le> 0" by (simp add: mult_le_0_iff)
    also have "\<dots> \<le> (2 :: real) ^ (?L y - 1)" by simp
    finally show ?thesis .
  next
    case True
    have "?n x < 2 ^ ?L x"
    proof (cases "0 < ?n x")
      case True
      then show ?thesis using floorlog_bounds [of "?n x" 2] by simp
    next
      case False
      then show ?thesis by simp
    qed
    also have "\<dots> \<le> 2 ^ (?L y - 1)"
      using LxLy by (simp add: power_increasing)
    finally have "real (?n x) < 2 ^ (?L y - 1)"
      by (metis of_nat_less_iff of_nat_numeral of_nat_power)
    then have "\<lfloor>x * dscale\<rfloor> < 2 ^ (?L y - 1)"
      using True by simp
    then have "x * dscale < of_int (2 ^ (?L y - 1))"
      by (simp add: floor_less_iff)
    then show ?thesis by simp
  qed
  have "round_real x * dscale \<le> 2 ^ (?L y - 1)"
    by (rule round_real_le_power [OF Px Ex])
  also have "\<dots> \<le> round_real y * dscale"
    by (rule round_real_ge_power [OF Py Ey])
  finally show ?thesis by simp
qed

lemma round_real_mono: assumes "x \<le> y" shows "round_real x \<le> round_real y"
proof -
  consider "ulp_pow x = ulp_pow y" | "ulp_pow x < ulp_pow y" | "ulp_pow y < ulp_pow x"
    by linarith
  then show ?thesis
  proof cases
    case 1
    have "x * dscale / 2 ^ ulp_pow y \<le> y * dscale / 2 ^ ulp_pow y"
      using assms by (simp add: divide_right_mono)
    then show ?thesis
      by (simp add: round_real_def 1 round_half_even_mono divide_right_mono mult_right_mono)
  next
    case 2
    then have "\<not> \<bar>y\<bar> \<le> \<bar>x\<bar>" using ulp_pow_mono [of y x] by auto
    with assms have "0 < y" by linarith
    then show ?thesis using assms 2 by (rule round_real_mono_pos)
  next
    case 3
    then have "\<not> \<bar>x\<bar> \<le> \<bar>y\<bar>" using ulp_pow_mono [of x y] by auto
    with assms have "0 < - x" by linarith
    then have "round_real (- y) \<le> round_real (- x)"
      using assms 3 by (intro round_real_mono_pos) simp_all
    then show ?thesis by (simp add: round_real_minus)
  qed
qed


lemma round_real_exact:
  assumes "x * dscale / 2 ^ ulp_pow x = of_int n"
  shows "round_real x = x"
proof -
  have "round_real x = (x * dscale / 2 ^ ulp_pow x) * 2 ^ ulp_pow x / dscale"
    by (simp add: round_real_def assms)
  then show ?thesis by simp
qed

lemma round_real_exact_scaled:
  assumes x: "x * dscale = of_int m * 2 ^ i" and m: "\<bar>m\<bar> < 2 ^ 53"
  shows "round_real x = x"
proof -
  have "\<bar>x\<bar> * dscale = \<bar>x * dscale\<bar>" by (simp add: abs_mult)
  also have "\<dots> = of_int (\<bar>m\<bar> * 2 ^ i)" by (simp add: x abs_mult)
  finally have "\<lfloor>\<bar>x\<bar> * dscale\<rfloor> = \<bar>m\<bar> * 2 ^ i" by (simp only: floor_of_int)
  then have "nat \<lfloor>\<bar>x\<bar> * dscale\<rfloor> = nat (\<bar>m\<bar> * 2 ^ i)" by (rule arg_cong)
  also have "\<dots> < nat (2 ^ 53 * 2 ^ i)"
    using m by (simp add: zless_nat_conj)
  also have "\<dots> = 2 ^ (53 + i)" by (simp add: power_add nat_mult_distrib nat_power_eq)
  finally have "floorlog 2 (nat \<lfloor>\<bar>x\<bar> * dscale\<rfloor>) \<le> 53 + i"
    by (intro floorlog_leI) simp_all
  then have E: "ulp_pow x \<le> i" by (simp add: ulp_pow_def)
  have "x * dscale / 2 ^ ulp_pow x = of_int m * (2 ^ i / 2 ^ ulp_pow x)" by (simp add: x)
  also have "\<dots> = of_int (m * 2 ^ (i - ulp_pow x))"
    by (simp add: two_power_diff [OF E])
  finally show ?thesis by (rule round_real_exact)
qed

lemma max_double_ge: "2 ^ 53 \<le> max_double"
  by (simp add: max_double_def)

lemma round_double_dyadic:
  assumes "\<bar>m\<bar> < 2 ^ 53" and "j \<le> 1074"
  shows "round_double (of_int m / 2 ^ j) = Fin (of_int m / 2 ^ j)"
proof -
  let ?x = "real_of_int m / 2 ^ j"
  have "dscale = 2 ^ (1074 - j) * 2 ^ j" using assms(2) by (simp add: dscale_def flip: power_add)
  then have "?x * dscale = ?x * (2 ^ (1074 - j) * 2 ^ j)" by (rule arg_cong)
  also have "\<dots> = of_int m * 2 ^ (1074 - j)" by simp
  finally have r: "round_real ?x = ?x" using assms(1) by (rule round_real_exact_scaled)
  have "\<bar>?x\<bar> \<le> \<bar>real_of_int m\<bar>"
    by (simp add: abs_divide divide_le_eq_1_pos mult_le_cancel_left1 field_simps)
  also have "\<dots> = real_of_int \<bar>m\<bar>" by simp
  also have "\<dots> \<le> 2 ^ 53" using assms(1) by (simp only: of_int_le_numeral_power_cancel_iff)
  also note max_double_ge
  finally have "\<bar>?x\<bar> \<le> max_double" .
  then have "\<not> max_double < ?x" and "\<not> ?x < - max_double" by linarith+
  then show ?thesis by (simp add: round_double_def r Let_def)
qed

lemma round_double_of_int:
  "\<bar>n\<bar> < 2 ^ 53 \<Longrightarrow> round_double (of_int n) = Fin (of_int n)"
  using round_double_dyadic [of n 0] by simp

lemma round_real_two_power: "round_real (2 ^ k) = 2 ^ k"
proof -
  have "(2 :: real) ^ k * dscale = of_int 1 * 2 ^ (k + 1074)"
    by (simp add: dscale_def power_add)
  then show ?thesis by (rule round_real_exact_scaled) simp
qed

lemma round_double_overflow:
  assumes "2 ^ 1024 \<le> x"
  shows "round_double x = PInf"
proof -
  have "max_double < 2 ^ 1024" by (simp add: max_double_def)
  also have "\<dots> = round_real (2 ^ 1024)" by (simp only: round_real_two_power)
  also have "\<dots> \<le> round_real x" using assms by (rule round_real_mono)
  finally show ?thesis by (simp add: round_double_def)
qed

section \<open>Properties of the idle timer\<close>

lemma raised_simps [simp]: "raised (Inr s) = None" "raised (Inl (e, s)) = Some e"
  by (simp_all add: raised_def)

lemma post_simps [simp]: "post (Inr s) = s" "post (Inl (e, s)) = s"
  by (simp_all add: post_def)

lemma round_double_Fin: "round_double x = Fin y \<Longrightarrow> y = round_real x"
  by (simp add: round_double_def Let_def split: if_splits)

lemma float_of_int_small: "\<bar>n\<bar> < 2 ^ 53 \<Longrightarrow> float_of_int n = Inr (Fin (of_int n))"
  by (simp add: float_of_int_def round_double_of_int)

lemma float_of_int_overflow:
  assumes "2 ^ 1024 \<le> n"
  shows "float_of_int n = Inl OverflowError"
proof -
  from assms have "(2 :: real) ^ 1024 \<le> of_int n"
    by (simp only: numeral_power_le_of_int_cancel_iff)
  then show ?thesis by (simp add: float_of_int_def round_double_overflow)
qed

lemma clock_plus_small:
  assumes "\<bar>n\<bar> < 2 ^ 53" and "\<bar>a + n\<bar> < 2 ^ 53"
  shows "clock_plus (of_int a) (NInt n) = Inr (Fin (of_int (a + n)))"
  using assms round_double_of_int [of "a + n"]
  by (simp add: clock_plus_def float_of_int_small)

lemma clock_plus_mono:
  assumes "t \<le> t'" and "clock_plus t offset = Inr (Fin g)" and "clock_plus t' offset = Inr (Fin d)"
  shows "g \<le> d"
proof -
  have *: "g \<le> d" if "round_double (t + r) = Fin g" and "round_double (t' + r) = Fin d" for r
    using that assms(1) round_real_mono [of "t + r" "t' + r"] by (auto dest!: round_double_Fin)
  show ?thesis
  proof (cases offset)
    case (NInt n)
    with assms(2,3) show ?thesis
      by (auto simp: clock_plus_def float_of_int_def split: pyfloat.splits sum.splits intro: *)
  next
    case (NFloat f)
    with assms(2,3) show ?thesis
      by (cases f) (auto simp: clock_plus_def intro: *)
  qed
qed

lemma clock_plus_raises_same:
  "clock_plus t offset = Inl e \<Longrightarrow> clock_plus t' offset = Inl e"
  by (auto simp: clock_plus_def split: pynum.splits sum.splits)

lemma start_idle_event_raise:
  "clock_plus t_gate offset = Inl e \<Longrightarrow> start_idle_event t_gate t_set offset weak s = Inl (e, s)"
  by (simp add: start_idle_event_def)

lemma start_idle_event_drop:
  "clock_plus t_gate offset = Inr g \<Longrightarrow> float_less g (idle_next s) \<Longrightarrow>
   start_idle_event t_gate t_set offset weak s =
     Inr (s\<lparr>log_out := log_out s @ [(Info, ''No update, before next time'')]\<rparr>)"
  by (simp add: start_idle_event_def log_call_def)

lemma start_idle_event_pass:
  assumes "clock_plus t_gate offset = Inr g" and "\<not> float_less g (idle_next s)"
      and "clock_plus t_set offset = Inr d" and "py_int offset = Inr n"
  shows "start_idle_event t_gate t_set offset weak s =
     Inr (s\<lparr>log_out := log_out s @ [(Info, ''Starting idle event''),
                                     (Info, ''Showing idle screen in {} seconds'')],
            idle_next := (if weak then idle_next s else d),
            scheduled := (scheduled s)(''IdleCheck'' \<mapsto> [n])\<rparr>)"
  using assms
  by (simp add: start_idle_event_def log_call_def cancel_scheduled_event_def schedule_event_def
      Let_def)

lemma start_idle_event_no_timer:
  assumes "clock_plus t_gate offset = Inr g" and "\<not> float_less g (idle_next s)"
      and "clock_plus t_set offset = Inr d" and "py_int offset = Inl e"
  shows "start_idle_event t_gate t_set offset weak s =
     Inr (s\<lparr>log_out := log_out s @ [(Info, ''Starting idle event''), (Exception, ''{}'')],
            idle_next := (if weak then idle_next s else d),
            scheduled := (scheduled s)(''IdleCheck'' := None)\<rparr>)"
  using assms
  by (simp add: start_idle_event_def log_call_def cancel_scheduled_event_def schedule_event_def
      Let_def)


declare gate_deadline.simps [simp del] requested_deadline.simps [simp del]

lemma finite_callE:
  assumes "finite_call (t_gate, t_set, offset, weak)"
  obtains g d where "clock_plus t_gate offset = Inr (Fin g)" and "clock_plus t_set offset = Inr (Fin d)"
    and "gate_deadline (t_gate, t_set, offset, weak) = g"
    and "requested_deadline (t_gate, t_set, offset, weak) = d"
  using assms
  by (auto simp add: gate_deadline.simps requested_deadline.simps split: sum.splits pyfloat.splits)

lemma idle_next_start_idle_event:
  assumes "clock_plus t_gate offset = Inr (Fin g)" and "clock_plus t_set offset = Inr (Fin d)"
      and "idle_next s = Fin a"
  shows "idle_next (post (start_idle_event t_gate t_set offset weak s)) =
           Fin (if g < a \<or> weak then a else d)"
  using assms
  by (simp add: start_idle_event_def log_call_def cancel_scheduled_event_def schedule_event_def
      Let_def split: sum.splits)

lemma idle_next_start_idle_events:
  assumes "list_all monotone_reading cs" and "list_all finite_call cs" and "idle_next s = Fin a"
  shows "\<exists>f. idle_next (start_idle_events cs s) = Fin f \<and> a \<le> f
           \<and> (\<forall>c \<in> set cs. \<not> is_weak c \<longrightarrow> gate_deadline c \<le> f)
           \<and> f \<in> set (a # map requested_deadline (filter (\<lambda>c. \<not> is_weak c) cs))"
  using assms
proof (induction cs arbitrary: s a)
  case Nil
  then show ?case by simp
next
  case (Cons c cs)
  obtain t_gate t_set offset weak where c: "c = (t_gate, t_set, offset, weak)"
    by (cases c) auto
  from Cons.prems have le: "t_gate \<le> t_set" and fin: "finite_call (t_gate, t_set, offset, weak)"
    and mono: "list_all monotone_reading cs" and fins: "list_all finite_call cs"
    by (simp_all add: c)
  from fin obtain g d where g: "clock_plus t_gate offset = Inr (Fin g)"
    and d: "clock_plus t_set offset = Inr (Fin d)"
    and gd: "gate_deadline c = g" and rd: "requested_deadline c = d"
    unfolding c by (rule finite_callE)
  have gle: "g \<le> d" using le g d by (rule clock_plus_mono)
  let ?s = "post (start_idle_event t_gate t_set offset weak s)"
  let ?b = "if g < a \<or> weak then a else d"
  have next_s: "idle_next ?s = Fin ?b"
    using g d Cons.prems(3) by (rule idle_next_start_idle_event)
  from Cons.IH [OF mono fins next_s]
  obtain f where f: "idle_next (start_idle_events cs ?s) = Fin f" and bf: "?b \<le> f"
    and lower: "\<forall>c \<in> set cs. \<not> is_weak c \<longrightarrow> gate_deadline c \<le> f"
    and mem: "f \<in> set (?b # map requested_deadline (filter (\<lambda>c. \<not> is_weak c) cs))"
    by blast
  have af: "a \<le> f" using bf gle by (auto split: if_splits)
  have cf: "\<not> weak \<longrightarrow> g \<le> f" using bf gle by (auto split: if_splits)
  have mem': "f \<in> set (a # map requested_deadline (filter (\<lambda>c. \<not> is_weak c) (c # cs)))"
    using mem rd [unfolded c] by (cases weak) (auto simp add: c split: if_splits)
  show ?case
    using f af cf lower mem' gd [unfolded c] by (auto simp add: c)
qed

text \<open>Sums of whole numbers below \<open>2 ^ 53\<close> are exact.\<close>

lemma clock_plus_integer:
  assumes "t \<in> \<int>" and "\<bar>n\<bar> < 2 ^ 53" and "\<bar>\<lfloor>t\<rfloor> + n\<bar> < 2 ^ 53"
  shows "clock_plus t (NInt n) = Inr (Fin (t + of_int n))"
proof -
  from assms(1) obtain a where t: "t = of_int a" by (auto elim: Ints_cases)
  with assms(3) have "\<bar>a + n\<bar> < 2 ^ 53" by simp
  with assms(2) show ?thesis unfolding t by (simp add: clock_plus_small)
qed

lemma idle_next_fresh: "idle_next fresh = Fin 0"
  by (simp add: fresh_def RemotePlatform_init_def zero_pyfloat_def)

lemma pending_eq:
  assumes "0 \<le> d" and "d < 2 ^ 53"
  shows "pending d =
     fresh\<lparr>log_out := [(Info, ''Starting idle event''),
                         (Info, ''Showing idle screen in {} seconds'')],
            idle_next := Fin (of_int d), scheduled := [''IdleCheck'' \<mapsto> [d]]\<rparr>"
proof -
  have sum: "clock_plus 0 (NInt d) = Inr (Fin (of_int d))"
    using assms clock_plus_small [of d 0] by simp
  have gate: "\<not> float_less (Fin (of_int d)) (idle_next fresh)"
    using assms(1) by (simp add: idle_next_fresh)
  have "py_int (NInt d) = Inr d" by simp
  from start_idle_event_pass [OF sum gate sum this, of False]
  show ?thesis by (simp add: pending_def fresh_def RemotePlatform_init_def)
qed

lemma idle_next_pending: "0 \<le> d \<Longrightarrow> d < 2 ^ 53 \<Longrightarrow> idle_next (pending d) = Fin (of_int d)"
  by (simp add: pending_eq)

lemma scheduled_pending:
  "0 \<le> d \<Longrightarrow> d < 2 ^ 53 \<Longrightarrow> scheduled (pending d) = [''IdleCheck'' \<mapsto> [d]]"
  by (simp add: pending_eq)

text \<open>A timer that fires runs \<open>show_idle_screen\<close>, which never writes \<open>idle_next\<close>.\<close>

lemma idle_next_show_idle_screen: "idle_next (post (show_idle_screen s)) = idle_next s"
  by (simp add: show_idle_screen_def log_call_def bus_emit_def Let_def
      split: option.splits prod.splits)

text \<open>
  A NaN offset passes every gate and is stored, and then every later call passes as well:
  after it the tracked deadline is whatever the last non-weak call asked for.
\<close>

lemma start_idle_event_nan:
  "idle_next (post (start_idle_event t_gate t_set (NFloat NaN) False s)) = NaN"
  by (simp add: start_idle_event_def clock_plus_def log_call_def cancel_scheduled_event_def
      Let_def)

text \<open>
  Claim C1, as amended. The gate of \<open>start_idle_event\<close> drops a request that would fire
  before the tracked deadline and lets a later one replace it. So after
  \<open>cancel_idle_event\<close> and any sequence of calls with finite sums, read from a monotonic
  clock, \<open>idle_next\<close> is the latest, not the soonest, of the non-weak requests: it is 0 or
  the deadline that a non-weak call stored (second clock reading plus offset), hence at most
  the maximum of these, and it is at least the maximum of 0 and the deadlines the non-weak
  calls were tested with (first clock reading plus offset). Where the two readings of every
  call agree, it is the maximum of 0 and the non-weak requested deadlines.
\<close>

theorem start_idle_events_latest_deadline:
  assumes "list_all monotone_reading cs" and "list_all finite_call cs"
  shows "\<exists>f. idle_next (start_idle_events cs (cancel_idle_event s)) = Fin f
           \<and> Max (set (0 # map gate_deadline (filter (\<lambda>c. \<not> is_weak c) cs))) \<le> f
           \<and> f \<le> Max (set (0 # map requested_deadline (filter (\<lambda>c. \<not> is_weak c) cs)))
           \<and> f \<in> set (0 # map requested_deadline (filter (\<lambda>c. \<not> is_weak c) cs))
           \<and> (list_all single_reading cs \<longrightarrow>
                f = Max (set (0 # map requested_deadline (filter (\<lambda>c. \<not> is_weak c) cs))))"
proof -
  let ?nw = "filter (\<lambda>c. \<not> is_weak c) cs"
  have "idle_next (cancel_idle_event s) = Fin 0"
    by (simp add: cancel_idle_event_def cancel_scheduled_event_def zero_pyfloat_def)
  from idle_next_start_idle_events [OF assms this]
  obtain f where f: "idle_next (start_idle_events cs (cancel_idle_event s)) = Fin f"
    and zero: "0 \<le> f"
    and lower: "\<forall>c \<in> set cs. \<not> is_weak c \<longrightarrow> gate_deadline c \<le> f"
    and mem: "f \<in> set (0 # map requested_deadline ?nw)"
    by blast
  have lo: "Max (set (0 # map gate_deadline ?nw)) \<le> f"
    using zero lower by (intro Max.boundedI) auto
  have hi: "f \<le> Max (set (0 # map requested_deadline ?nw))"
    using mem by (intro Max_ge) auto
  have eq: "f = Max (set (0 # map requested_deadline ?nw))" if "list_all single_reading cs"
  proof -
    have "gate_deadline c = requested_deadline c" if "c \<in> set cs" for c
      using \<open>list_all single_reading cs\<close> that
      by (cases c) (auto simp: list_all_iff gate_deadline.simps requested_deadline.simps)
    then have "map gate_deadline ?nw = map requested_deadline ?nw"
      by (intro map_cong) auto
    with lo have "Max (set (0 # map requested_deadline ?nw)) \<le> f" by (simp only:)
    with hi show ?thesis by (rule antisym)
  qed
  from f lo hi mem eq show ?thesis by blast
qed

text \<open>
  Four calls, the third one weak, each taking one time unit between its two readings. The
  first two pass and store 11 and 33, the weak one passes and stores nothing, the last one
  asks for less and is dropped: the tracked deadline is 33, between the maxima 32 and 33.
\<close>

theorem start_idle_events_latest_deadline_witness:
  "list_all monotone_reading four_calls \<and> list_all finite_call four_calls
   \<and> idle_next (start_idle_events four_calls (cancel_idle_event fresh)) = Fin 33
   \<and> Max (set (0 # map gate_deadline (filter (\<lambda>c. \<not> is_weak c) four_calls))) = 32
   \<and> Max (set (0 # map requested_deadline (filter (\<lambda>c. \<not> is_weak c) four_calls))) = 33"
proof -
  have a: "list_all monotone_reading four_calls" "list_all finite_call four_calls"
    by (simp_all add: four_calls_def clock_plus_integer)
  have g: "map gate_deadline (filter (\<lambda>c. \<not> is_weak c) four_calls) = [10, 32, 11]"
    and r: "map requested_deadline (filter (\<lambda>c. \<not> is_weak c) four_calls) = [11, 33, 12]"
    by (simp_all add: four_calls_def clock_plus_integer gate_deadline.simps
        requested_deadline.simps)
  show ?thesis
    using start_idle_events_latest_deadline [OF a, of fresh]
    by (auto simp add: a g r)
qed

text \<open>
  Claim C1 as stated fails: two non-weak calls at time 0 ask for 10 and for 30; the minimum
  of the requested deadlines is 10, the tracked deadline is 30.
\<close>

theorem start_idle_events_not_minimum:
  "idle_next (start_idle_events [(0, 0, NInt 10, False), (0, 0, NInt 30, False)]
     (cancel_idle_event fresh)) = Fin 30
   \<and> Fin 30 \<noteq> Fin (Min {0 + 10, 0 + 30})"
  by (simp add: start_idle_event_def clock_plus_integer cancel_idle_event_def
      cancel_scheduled_event_def schedule_event_def log_call_def zero_pyfloat_def Let_def)

text \<open>
  Claim C4, as amended. A call with an offset that \<open>int\<close> accepts (an \<open>int\<close> or a finite
  float) and that passes the gate removes the events pending under \<open>IdleCheck\<close> and
  schedules exactly one new event, with the delay \<open>int(offset)\<close>: the offset truncated
  towards zero, not the offset itself. It logs two lines. A weak call changes nothing
  else, so \<open>idle_next\<close> is left as it was; a non-weak call also sets \<open>idle_next\<close> to the float
  sum of the second clock reading and the offset.
\<close>

theorem start_idle_event_weak_frame:
  assumes "clock_plus t_gate offset = Inr g" and "\<not> float_less g (idle_next s)"
      and "clock_plus t_set offset = Inr d" and "py_int offset = Inr n"
  shows "start_idle_event t_gate t_set offset True s =
           Inr (s\<lparr>log_out := log_out s @ [(Info, ''Starting idle event''),
                                           (Info, ''Showing idle screen in {} seconds'')],
                   scheduled := (scheduled s)(''IdleCheck'' \<mapsto> [n])\<rparr>)
       \<and> start_idle_event t_gate t_set offset False s =
           Inr (s\<lparr>log_out := log_out s @ [(Info, ''Starting idle event''),
                                           (Info, ''Showing idle screen in {} seconds'')],
                   idle_next := d,
                   scheduled := (scheduled s)(''IdleCheck'' \<mapsto> [n])\<rparr>)"
  using start_idle_event_pass [OF assms, of True] start_idle_event_pass [OF assms, of False]
  by simp

text \<open>
  A timer is pending for time 35 with delay 35. At time 10 a call with the float offset
  30.5 passes the gate, with the second clock reading 11: weak, it keeps the deadline 35;
  non-weak, it moves it to 41.5; both leave one pending timer, with delay 30.
\<close>

theorem start_idle_event_weak_frame_witness:
  "clock_plus 10 (NFloat (Fin (61 / 2))) = Inr (Fin (81 / 2))
   \<and> idle_next (pending 35) = Fin 35
   \<and> scheduled (pending 35) ''IdleCheck'' = Some [35]
   \<and> clock_plus 11 (NFloat (Fin (61 / 2))) = Inr (Fin (83 / 2))
   \<and> py_int (NFloat (Fin (61 / 2))) = Inr 30
   \<and> raised (start_idle_event 10 11 (NFloat (Fin (61 / 2))) True (pending 35)) = None
   \<and> idle_next (post (start_idle_event 10 11 (NFloat (Fin (61 / 2))) True (pending 35))) = Fin 35
   \<and> scheduled (post (start_idle_event 10 11 (NFloat (Fin (61 / 2))) True (pending 35)))
        ''IdleCheck'' = Some [30]
   \<and> raised (start_idle_event 10 11 (NFloat (Fin (61 / 2))) False (pending 35)) = None
   \<and> idle_next (post (start_idle_event 10 11 (NFloat (Fin (61 / 2))) False (pending 35))) =
        Fin (83 / 2)
   \<and> scheduled (post (start_idle_event 10 11 (NFloat (Fin (61 / 2))) False (pending 35)))
        ''IdleCheck'' = Some [30]"
proof -
  have g: "clock_plus 10 (NFloat (Fin (61 / 2))) = Inr (Fin (81 / 2))"
    using round_double_dyadic [of 81 1] by (simp add: clock_plus_def)
  have d: "clock_plus 11 (NFloat (Fin (61 / 2))) = Inr (Fin (83 / 2))"
    using round_double_dyadic [of 83 1] by (simp add: clock_plus_def)
  have p: "idle_next (pending 35) = Fin 35" "scheduled (pending 35) ''IdleCheck'' = Some [35]"
    by (simp_all add: idle_next_pending scheduled_pending)
  have gate: "\<not> float_less (Fin (81 / 2)) (idle_next (pending 35))"
    by (simp add: p)
  have n: "py_int (NFloat (Fin (61 / 2))) = Inr 30"
    by (simp add: py_trunc_def)
  show ?thesis
    using start_idle_event_weak_frame [OF g gate d n]
    by (simp add: g d p py_trunc_def)
qed

text \<open>
  Claim C4 as stated fails: a call with the offset 2.75 passes the gate and arms the timer
  with the delay 2, not 2.75.
\<close>

theorem start_idle_event_truncates_offset:
  "raised (start_idle_event 10 10 (NFloat (Fin (11 / 4))) True fresh) = None
   \<and> scheduled (post (start_idle_event 10 10 (NFloat (Fin (11 / 4))) True fresh)) ''IdleCheck''
        = Some [2]
   \<and> real_of_int 2 \<noteq> 11 / 4"
proof -
  have g: "clock_plus 10 (NFloat (Fin (11 / 4))) = Inr (Fin (51 / 4))"
    using round_double_dyadic [of 51 2] by (simp add: clock_plus_def)
  have gate: "\<not> float_less (Fin (51 / 4)) (idle_next fresh)"
    by (simp add: idle_next_fresh)
  have n: "py_int (NFloat (Fin (11 / 4))) = Inr 2"
    by (simp add: py_trunc_def)
  show ?thesis
    by (simp add: start_idle_event_pass [OF g gate g n])
qed

text \<open>With an infinite offset the call passes the gate, cancels the pending timer and arms
  none: \<open>int(offset)\<close> raises inside the \<open>try\<close>.\<close>

lemma float_less_PInf [simp]: "float_less PInf b = False"
  by (cases b) simp_all

lemma start_idle_event_infinite_offset:
  "scheduled (post (start_idle_event t_gate t_set (NFloat PInf) weak s)) =
     (scheduled s)(''IdleCheck'' := None)"
  by (simp add: start_idle_event_def clock_plus_def log_call_def cancel_scheduled_event_def
      Let_def)

section \<open>Properties of the page-shown handler\<close>

lemma on_gui_page_show_int:
  assumes "py_in ''remote-platform'' (get_default (data m) ''__from'' (PStr [])) = Inr False"
      and "data m ''__idle'' = Some (PInt n)"
  shows "on_gui_page_show t1 t2 m s =
     start_idle_event t1 t2 (NInt n) False
       (log_call Info ''Overriding idle timer to {} seconds'' (s\<lparr>has_show_page := True\<rparr>))"
  using assms by (simp add: on_gui_page_show_def get_default_def)

lemma idle15_sender:
  "py_in ''remote-platform'' (get_default (data idle15) ''__from'' (PStr [])) = Inr False"
  by (simp add: idle15_def page_shown_def get_default_def)

lemma idle15_directive: "data idle15 ''__idle'' = Some (PInt 15)"
  by (simp add: idle15_def page_shown_def)

text \<open>An \<open>int\<close> beyond float range as \<open>__idle\<close>: the sum of line 317 raises, and nothing
  catches it.\<close>

lemma on_gui_page_show_int_overflow:
  assumes "py_in ''remote-platform'' (get_default (data m) ''__from'' (PStr [])) = Inr False"
      and "data m ''__idle'' = Some (PInt n)" and "2 ^ 1024 \<le> n"
  shows "raised (on_gui_page_show t1 t2 m s) = Some OverflowError"
  by (simp add: on_gui_page_show_int [OF assms(1,2)] start_idle_event_raise clock_plus_def
      float_of_int_overflow [OF assms(3)])

text \<open>
  Claim C2, as amended. A page-shown event from another skill with the directive
  \<open>__idle = n\<close> (the claim has \<open>n = 15\<close>), \<open>n\<close> in float range, calls
  \<open>start_idle_event(n)\<close>, whose gate compares the float sum \<open>now + n\<close> with the tracked
  deadline. When that sum is not below the tracked deadline, the deadline becomes the
  float sum of the second clock reading and \<open>n\<close>, and the pending timer is replaced by one
  with delay \<open>n\<close>; when the tracked deadline is later than the sum, the deadline and the
  pending timer stay as they are.
\<close>

theorem on_gui_page_show_numeric_override:
  assumes "py_in ''remote-platform'' (get_default (data m) ''__from'' (PStr [])) = Inr False"
      and "data m ''__idle'' = Some (PInt n)"
      and "float_of_int n = Inr f"
  shows "raised (on_gui_page_show t1 t2 m s) = None
       \<and> has_show_page (post (on_gui_page_show t1 t2 m s))
       \<and> (if float_less (float_add (Fin t1) f) (idle_next s)
          then idle_next (post (on_gui_page_show t1 t2 m s)) = idle_next s
             \<and> scheduled (post (on_gui_page_show t1 t2 m s)) = scheduled s
          else idle_next (post (on_gui_page_show t1 t2 m s)) = float_add (Fin t2) f
             \<and> scheduled (post (on_gui_page_show t1 t2 m s)) =
                 (scheduled s)(''IdleCheck'' \<mapsto> [n]))"
proof -
  let ?s = "log_call Info ''Overriding idle timer to {} seconds'' (s\<lparr>has_show_page := True\<rparr>)"
  have g: "clock_plus t1 (NInt n) = Inr (float_add (Fin t1) f)"
    and d: "clock_plus t2 (NInt n) = Inr (float_add (Fin t2) f)"
    by (simp_all add: clock_plus_def assms(3))
  have n: "py_int (NInt n) = Inr n" by simp
  have s: "idle_next ?s = idle_next s" "scheduled ?s = scheduled s" "has_show_page ?s"
    by (simp_all add: log_call_def)
  show ?thesis
  proof (cases "float_less (float_add (Fin t1) f) (idle_next s)")
    case True
    then have "float_less (float_add (Fin t1) f) (idle_next ?s)" by (simp add: s)
    from start_idle_event_drop [OF g this] True show ?thesis
      by (simp add: on_gui_page_show_int [OF assms(1,2)] s)
  next
    case False
    then have "\<not> float_less (float_add (Fin t1) f) (idle_next ?s)" by (simp add: s)
    from start_idle_event_pass [OF g this d n] False show ?thesis
      by (simp add: on_gui_page_show_int [OF assms(1,2)] s)
  qed
qed

text \<open>
  At time 20, with a timer pending for time 30, \<open>__idle = 15\<close> moves the deadline to 35 and
  leaves one timer with delay 15; with a timer pending for time 100 it changes neither the
  deadline nor the timer.
\<close>

theorem on_gui_page_show_numeric_override_witness:
  "py_in ''remote-platform'' (get_default (data idle15) ''__from'' (PStr [])) = Inr False
   \<and> data idle15 ''__idle'' = Some (PInt 15)
   \<and> float_of_int 15 = Inr (Fin 15)
   \<and> float_add (Fin 20) (Fin 15) = Fin 35
   \<and> idle_next (pending 30) = Fin 30
   \<and> raised (on_gui_page_show 20 20 idle15 (pending 30)) = None
   \<and> idle_next (post (on_gui_page_show 20 20 idle15 (pending 30))) = Fin 35
   \<and> scheduled (post (on_gui_page_show 20 20 idle15 (pending 30))) ''IdleCheck'' = Some [15]
   \<and> idle_next (pending 100) = Fin 100
   \<and> raised (on_gui_page_show 20 20 idle15 (pending 100)) = None
   \<and> idle_next (post (on_gui_page_show 20 20 idle15 (pending 100))) = Fin 100
   \<and> scheduled (post (on_gui_page_show 20 20 idle15 (pending 100))) ''IdleCheck'' = Some [100]"
proof -
  have f: "float_of_int 15 = Inr (Fin 15)"
    using float_of_int_small [of 15] by simp
  have a: "round_double 35 = Fin 35"
    using round_double_of_int [of 35] by simp
  show ?thesis
    using on_gui_page_show_numeric_override
        [OF idle15_sender idle15_directive f, where ?t1.0 = 20 and ?t2.0 = 20 and s = "pending 30"]
      on_gui_page_show_numeric_override
        [OF idle15_sender idle15_directive f, where ?t1.0 = 20 and ?t2.0 = 20 and s = "pending 100"]
    by (simp add: idle15_sender idle15_directive f a idle_next_pending scheduled_pending)
qed

text \<open>
  Claim C2 as stated fails: at time 20 a deadline is pending for time 100, later than
  20 + 15; after the event with \<open>__idle = 15\<close> the tracked deadline is still 100.
\<close>

theorem on_gui_page_show_keeps_longer_deadline:
  "idle_next (pending 100) = Fin 100
   \<and> 20 + 15 < (100 :: real)
   \<and> scheduled (pending 100) ''IdleCheck'' = Some [100]
   \<and> raised (on_gui_page_show 20 20 idle15 (pending 100)) = None
   \<and> idle_next (post (on_gui_page_show 20 20 idle15 (pending 100))) = Fin 100
   \<and> Fin 100 \<noteq> Fin (20 + 15)"
proof -
  let ?s = "log_call Info ''Overriding idle timer to {} seconds''
              ((pending 100)\<lparr>has_show_page := True\<rparr>)"
  have g: "clock_plus 20 (NInt 15) = Inr (Fin 35)"
    by (simp add: clock_plus_integer)
  have gate: "float_less (Fin 35) (idle_next ?s)"
    by (simp add: log_call_def idle_next_pending)
  have "on_gui_page_show 20 20 idle15 (pending 100) =
      Inr (?s\<lparr>log_out := log_out ?s @ [(Info, ''No update, before next time'')]\<rparr>)"
    by (simp only: on_gui_page_show_int [OF idle15_sender idle15_directive]
        start_idle_event_drop [OF g gate])
  then show ?thesis
    by (simp add: log_call_def idle_next_pending scheduled_pending)
qed

text \<open>
  Claim C7. A page-shown event from another skill with \<open>__idle = True\<close> removes the pending
  \<open>IdleCheck\<close> event, schedules nothing, clears the tracked deadline and stores the event
  with the clock reading as the override; this holds in every state, with or without an
  override stored before.
\<close>

theorem on_gui_page_show_suppress:
  assumes "py_in ''remote-platform'' (get_default (data m) ''__from'' (PStr [])) = Inr False"
      and "data m ''__idle'' = Some (PBool True)"
  shows "on_gui_page_show t1 t2 m s =
           Inr (s\<lparr>has_show_page := True, idle_next := 0,
                   scheduled := (scheduled s)(''IdleCheck'' := None),
                   override_idle := Some (m, t1)\<rparr>)"
  using assms
  by (simp add: on_gui_page_show_def get_default_def cancel_idle_event_def
      cancel_scheduled_event_def)

theorem on_gui_page_show_suppress_witness:
  "py_in ''remote-platform'' (get_default (data suppress) ''__from'' (PStr [])) = Inr False
   \<and> data suppress ''__idle'' = Some (PBool True)
   \<and> override_idle (pending 30) = None
   \<and> scheduled (pending 30) ''IdleCheck'' = Some [30]
   \<and> raised (on_gui_page_show 20 20 suppress (pending 30)) = None
   \<and> scheduled (post (on_gui_page_show 20 20 suppress (pending 30))) = Map.empty
   \<and> override_idle (post (on_gui_page_show 20 20 suppress (pending 30))) = Some (suppress, 20)"
proof -
  have sender:
    "py_in ''remote-platform'' (get_default (data suppress) ''__from'' (PStr [])) = Inr False"
    by (simp add: suppress_def page_shown_def get_default_def)
  have directive: "data suppress ''__idle'' = Some (PBool True)"
    by (simp add: suppress_def page_shown_def)
  have no_override: "override_idle (pending 30) = None"
    by (simp add: pending_eq fresh_def RemotePlatform_init_def)
  show ?thesis
    using on_gui_page_show_suppress [OF sender directive, of 20 20 "pending 30"]
    by (simp add: sender directive no_override scheduled_pending)
qed

text \<open>
  \<open>on_gui_page_show\<close> has no \<open>try\<close>: what the payload tests raise leaves the handler. An
  event from another skill without a usable \<open>__idle\<close> makes line 247 read
  \<open>message.data['page']\<close>.
\<close>

lemma no_page_sender:
  "py_in ''remote-platform'' (get_default (data no_page) ''__from'' (PStr [])) = Inr False"
  by (simp add: no_page_def page_shown_def get_default_def)

lemma start_idle_event_int_returns:
  "float_of_int n = Inr f \<Longrightarrow> raised (start_idle_event t1 t2 (NInt n) weak s) = None"
  by (simp add: start_idle_event_def clock_plus_def Let_def split: sum.splits)

text \<open>
  Claim C3, as amended. \<open>on_gui_page_show\<close> returns without raising on every page-shown
  event whose \<open>__from\<close> is absent or a string and that carries \<open>__idle = True\<close>, or an
  integer \<open>__idle\<close> in float range, or no \<open>int\<close> as \<open>__idle\<close> and an empty page list or a
  page list that starts with a string. It does not catch what a malformed payload raises:
  on an event from another skill that has neither such an \<open>__idle\<close> nor a \<open>page\<close> field,
  \<open>KeyError\<close> leaves the handler, after \<open>has_show_page\<close> has been set and with nothing else
  changed.
\<close>

theorem on_gui_page_show_raises_on_missing_page:
  "((data m ''__from'' = None \<or> (\<exists>f. data m ''__from'' = Some (PStr f)))
     \<and> (data m ''__idle'' = Some (PBool True)
         \<or> (\<exists>n f. data m ''__idle'' = Some (PInt n) \<and> float_of_int n = Inr f)
         \<or> as_int (get_default (data m) ''__idle'' PNone) = None
             \<and> data m ''page'' = Some (PList [])
         \<or> (\<exists>p ps. as_int (get_default (data m) ''__idle'' PNone) = None
             \<and> data m ''page'' = Some (PList (PStr p # ps))))
     \<longrightarrow> raised (on_gui_page_show t1 t2 m s) = None)
   \<and> (py_in ''remote-platform'' (get_default (data m) ''__from'' (PStr [])) = Inr False
       \<and> get_default (data m) ''__idle'' PNone \<noteq> PBool True
       \<and> as_int (get_default (data m) ''__idle'' PNone) = None
       \<and> data m ''page'' = None
     \<longrightarrow> on_gui_page_show t1 t2 m s = Inl (KeyError, s\<lparr>has_show_page := True\<rparr>))"
proof -
  have thirty: "float_of_int 30 = Inr (Fin 30)"
    using float_of_int_small [of 30] by simp
  show ?thesis
    by (auto simp add: on_gui_page_show_def get_default_def Let_def
        start_idle_event_int_returns start_idle_event_int_returns [OF thirty]
        split: sum.splits bool.splits option.splits)
qed

text \<open>
  The event \<open>idle15\<close> is handled; the event \<open>no_page\<close>, which has a sender and nothing else,
  raises \<open>KeyError\<close>.
\<close>

theorem on_gui_page_show_raises_on_missing_page_witness:
  "data idle15 ''__from'' = Some (PStr ''skill-weather'')
   \<and> data idle15 ''__idle'' = Some (PInt 15)
   \<and> float_of_int 15 = Inr (Fin 15)
   \<and> raised (on_gui_page_show 20 20 idle15 fresh) = None
   \<and> py_in ''remote-platform'' (get_default (data no_page) ''__from'' (PStr [])) = Inr False
   \<and> get_default (data no_page) ''__idle'' PNone \<noteq> PBool True
   \<and> as_int (get_default (data no_page) ''__idle'' PNone) = None
   \<and> data no_page ''page'' = None
   \<and> on_gui_page_show 20 20 no_page fresh = Inl (KeyError, fresh\<lparr>has_show_page := True\<rparr>)"
proof -
  have a: "data idle15 ''__from'' = Some (PStr ''skill-weather'')"
    by (simp add: idle15_def page_shown_def)
  have b: "get_default (data no_page) ''__idle'' PNone = PNone" "data no_page ''page'' = None"
    by (simp_all add: no_page_def page_shown_def get_default_def)
  have f: "float_of_int 15 = Inr (Fin 15)"
    using float_of_int_small [of 15] by simp
  show ?thesis
    using on_gui_page_show_raises_on_missing_page [of idle15 20 20 fresh]
      on_gui_page_show_raises_on_missing_page [of no_page 20 20 fresh]
    by (simp add: a b f idle15_directive no_page_sender)
qed

text \<open>
  Claim C3 as stated fails: a page-shown event with an empty payload makes the handler
  raise \<open>KeyError\<close>.
\<close>

theorem on_gui_page_show_empty_payload_raises:
  "raised (on_gui_page_show 0 0 (page_shown Map.empty) fresh) = Some KeyError"
  by (simp add: on_gui_page_show_def page_shown_def get_default_def)

text \<open>
  \<open>handle_skill_setting_show\<close> raises on every event: \<open>KeyError\<close> or \<open>StopIteration\<close> on the
  way, \<open>NameError\<close> in its last line otherwise.
\<close>

lemma handle_skill_setting_show_raises:
  "raised (handle_skill_setting_show eq m s) \<noteq> None"
  by (simp add: handle_skill_setting_show_def dump_skill_settings_def
      split: option.splits sum.splits)

section \<open>Properties of the handler-complete handler\<close>

text \<open>\<open>initialize\<close> subscribes \<open>on_handler_started\<close>, and never \<open>on_handler_complete\<close>.\<close>

lemma on_handler_complete_not_subscribed:
  "''on_handler_complete'' \<notin> snd ` set subscriptions
   \<and> ''mycroft.skill.handler.complete'' \<notin> fst ` set subscriptions"
  by (simp add: subscriptions_def)

text \<open>
  Claim C5, as amended. \<open>on_handler_complete\<close>, called with an event whose handler name is
  a string (or absent, which reads as the empty string), resets \<open>has_show_page\<close> to false
  and changes nothing else when the name contains neither \<open>RemotePlatform\<close> nor
  \<open>TimeSkill.update_display\<close>; an event whose handler name contains one of the two is
  ignored.
\<close>

theorem on_handler_complete_resets:
  assumes "get_default (data m) ''handler'' (PStr []) = PStr h"
  shows "on_handler_complete m s =
           Inr (if str_contains ''RemotePlatform'' h
                   \<or> str_contains ''TimeSkill.update_display'' h
                then s else s\<lparr>has_show_page := False\<rparr>)"
  using assms
  by (simp add: on_handler_complete_def Let_def split: bool.splits)

theorem on_handler_complete_resets_witness:
  "get_default (data joke_done) ''handler'' (PStr []) = PStr ''JokingSkill.handle_joke''
   \<and> has_show_page (fresh\<lparr>has_show_page := True\<rparr>)
   \<and> on_handler_complete joke_done (fresh\<lparr>has_show_page := True\<rparr>) = Inr fresh"
proof -
  have h: "get_default (data joke_done) ''handler'' (PStr []) = PStr ''JokingSkill.handle_joke''"
    by (simp add: joke_done_def handler_complete_def get_default_def)
  show ?thesis
    using on_handler_complete_resets [OF h, of "fresh\<lparr>has_show_page := True\<rparr>"]
    by (simp add: h fresh_def RemotePlatform_init_def)
qed

text \<open>
  Claim C5 as stated fails: the handler name \<open>TimeSkill.update_display\<close> does not name the
  controller, and the event leaves \<open>has_show_page\<close> set.
\<close>

theorem on_handler_complete_ignores_clock:
  "\<not> str_contains ''RemotePlatform'' ''TimeSkill.update_display''
   \<and> data clock_done ''handler'' = Some (PStr ''TimeSkill.update_display'')
   \<and> raised (on_handler_complete clock_done (fresh\<lparr>has_show_page := True\<rparr>)) = None
   \<and> has_show_page (post (on_handler_complete clock_done (fresh\<lparr>has_show_page := True\<rparr>)))"
  by (simp add: on_handler_complete_def clock_done_def handler_complete_def get_default_def)

section \<open>Properties of the registry and of showing the idle screen\<close>

lemma key_eq_refl: "key_eq k k"
  by (cases k) (simp_all add: key_eq_def)

lemma dict_get_dict_set: "dict_get (dict_set d k v) k = Some v"
  by (induction d) (auto simp: key_eq_refl)

lemma dict_set_not_Nil: "dict_set d k v \<noteq> []"
  by (cases d) (auto split: if_splits)

text \<open>
  Claim C6. With an override stored at time \<open>t0\<close>, \<open>force_idle_screen\<close> at time \<open>t\<close>:
  up to 2 time units after \<open>t0\<close> it emits the stored event and nothing else, and keeps the
  override; 3 or more time units after \<open>t0\<close> it clears the override and, the selected
  screen being registered with a non-empty id, emits that screen's \<open>.idle\<close> event and
  nothing else.
\<close>

theorem force_idle_screen_override:
  assumes "override_idle s = Some (ev, t0)"
  shows "(t - t0 \<le> 2 \<longrightarrow>
            raised (force_idle_screen t s) = None
          \<and> emitted (post (force_idle_screen t s)) = emitted s @ [ev]
          \<and> override_idle (post (force_idle_screen t s)) = Some (ev, t0))
       \<and> (3 \<le> t - t0 \<and> gui s ''selected'' = Some sel \<and> hashable sel
            \<and> dict_get (idle_screens s) sel = Some screen \<and> truthy screen \<longrightarrow>
            raised (force_idle_screen t s) = None
          \<and> override_idle (post (force_idle_screen t s)) = None
          \<and> emitted (post (force_idle_screen t s)) =
              emitted s @ [Message (py_str screen @ ''.idle'')])"
  using assms
  by (auto simp add: force_idle_screen_def show_idle_screen_def log_call_def bus_emit_def
      Let_def)

text \<open>
  The override was stored at time 10. At time 12 the stored event is emitted again; at
  time 13 the override is cleared and \<open>id2.idle\<close> is emitted.
\<close>

theorem force_idle_screen_override_witness:
  "override_idle overridden = Some (suppress, 10)
   \<and> emitted overridden = []
   \<and> 12 - 10 \<le> (2 :: real)
   \<and> raised (force_idle_screen 12 overridden) = None
   \<and> emitted (post (force_idle_screen 12 overridden)) = [suppress]
   \<and> override_idle (post (force_idle_screen 12 overridden)) = Some (suppress, 10)
   \<and> (3 :: real) \<le> 13 - 10
   \<and> gui overridden ''selected'' = Some (PStr ''B'')
   \<and> dict_get (idle_screens overridden) (PStr ''B'') = Some (PStr ''id2'')
   \<and> raised (force_idle_screen 13 overridden) = None
   \<and> override_idle (post (force_idle_screen 13 overridden)) = None
   \<and> emitted (post (force_idle_screen 13 overridden)) = [Message ''id2.idle'']"
proof -
  have o: "override_idle overridden = Some (suppress, 10)" "emitted overridden = []"
    "gui overridden ''selected'' = Some (PStr ''B'')"
    "dict_get (idle_screens overridden) (PStr ''B'') = Some (PStr ''id2'')"
    by (simp_all add: overridden_def fresh_def RemotePlatform_init_def key_eq_def)
  show ?thesis
    using force_idle_screen_override [OF o(1), of 12 "PStr ''B''" "PStr ''id2''"]
      force_idle_screen_override [OF o(1), of 13 "PStr ''B''" "PStr ''id2''"]
    by (simp add: o)
qed

text \<open>
  Claim C8. From a state without override: registering a screen under the name \<open>a\<close> with
  id \<open>i1\<close>, registering one under the name \<open>b\<close> with the non-empty id \<open>i2\<close>, selecting
  \<open>b\<close> and then calling \<open>show_idle_screen\<close> raises nothing and emits exactly one event,
  named \<open>i2\<close> followed by \<open>.idle\<close>.
\<close>

theorem show_idle_screen_selected:
  assumes "override_idle s = None"
    and "data r1 ''name'' = Some (PStr a)" and "data r1 ''id'' = Some (PStr i1)"
    and "data r2 ''name'' = Some (PStr b)" and "data r2 ''id'' = Some (PStr i2)"
    and "i2 \<noteq> []"
    and "data sel ''selected'' = Some (PStr b)"
  shows "raised (run_handlers [on_register_idle r1, on_register_idle r2,
                               set_idle_screen sel, show_idle_screen] s) = None
       \<and> emitted (post (run_handlers [on_register_idle r1, on_register_idle r2,
                                       set_idle_screen sel, show_idle_screen] s)) =
           emitted s @ [Message (i2 @ ''.idle'')]"
  using assms
  by (simp add: on_register_idle_def set_idle_screen_def save_resting_screen_def
      show_idle_screen_def log_call_def bus_emit_def Let_def dict_get_dict_set
      dict_set_not_Nil)

theorem show_idle_screen_selected_witness:
  "override_idle fresh = None
   \<and> emitted fresh = []
   \<and> raised (run_handlers
        [on_register_idle (register_idle [''name'' \<mapsto> PStr ''A'', ''id'' \<mapsto> PStr ''id1'']),
         on_register_idle (register_idle [''name'' \<mapsto> PStr ''B'', ''id'' \<mapsto> PStr ''id2'']),
         set_idle_screen (set_idle [''selected'' \<mapsto> PStr ''B'']),
         show_idle_screen] fresh) = None
   \<and> emitted (post (run_handlers
        [on_register_idle (register_idle [''name'' \<mapsto> PStr ''A'', ''id'' \<mapsto> PStr ''id1'']),
         on_register_idle (register_idle [''name'' \<mapsto> PStr ''B'', ''id'' \<mapsto> PStr ''id2'']),
         set_idle_screen (set_idle [''selected'' \<mapsto> PStr ''B'']),
         show_idle_screen] fresh)) = [Message ''id2.idle'']"
proof -
  have f: "override_idle fresh = None" "emitted fresh = []"
    by (simp_all add: fresh_def RemotePlatform_init_def)
  show ?thesis
    using show_idle_screen_selected
      [where s = fresh and a = "''A''" and ?i1.0 = "''id1''" and b = "''B''" and ?i2.0 = "''id2''"
         and ?r1.0 = "register_idle [''name'' \<mapsto> PStr ''A'', ''id'' \<mapsto> PStr ''id1'']"
         and ?r2.0 = "register_idle [''name'' \<mapsto> PStr ''B'', ''id'' \<mapsto> PStr ''id2'']"
         and sel = "set_idle [''selected'' \<mapsto> PStr ''B'']"]
    by (simp add: f register_idle_def set_idle_def)
qed

text \<open>
  Claim C9. A registration event without the \<open>id\<close> field, or without the \<open>name\<close> field,
  makes \<open>on_register_idle\<close> log one error and return: nothing is raised, and the registry,
  like every other field but the log, is unchanged.
\<close>

theorem on_register_idle_malformed:
  assumes "data m ''id'' = None \<or> data m ''name'' = None"
  shows "on_register_idle m s =
           Inr (s\<lparr>log_out := log_out s @
                  [(Error, ''Malformed idle screen registration received'')]\<rparr>)
       \<and> raised (on_register_idle m s) = None
       \<and> idle_screens (post (on_register_idle m s)) = idle_screens s"
  using assms
  by (auto simp add: on_register_idle_def log_call_def split: option.splits)

theorem on_register_idle_malformed_witness:
  "data (register_idle [''name'' \<mapsto> PStr ''A'']) ''id'' = None
   \<and> raised (on_register_idle (register_idle [''name'' \<mapsto> PStr ''A'']) overridden) = None
   \<and> idle_screens (post (on_register_idle (register_idle [''name'' \<mapsto> PStr ''A'']) overridden)) =
       [(PStr ''B'', PStr ''id2'')]"
  using on_register_idle_malformed [of "register_idle [''name'' \<mapsto> PStr ''A'']" overridden]
  by (simp add: register_idle_def overridden_def)

text \<open>
  Claim C10. With an empty registry and no override, \<open>cancel_idle_event\<close> followed by
  \<open>show_idle_screen\<close> raises nothing and emits no event; \<open>show_idle_screen\<close> only writes
  one debug line to the log.
\<close>

theorem cancel_then_show_idle_screen_empty:
  assumes "idle_screens s = []" and "override_idle s = None"
  shows "show_idle_screen (cancel_idle_event s) =
           Inr (log_call Debug ''Showing idle screen'' (cancel_idle_event s))
       \<and> raised (show_idle_screen (cancel_idle_event s)) = None
       \<and> emitted (post (show_idle_screen (cancel_idle_event s))) = emitted s"
  using assms
  by (simp add: show_idle_screen_def cancel_idle_event_def cancel_scheduled_event_def
      log_call_def Let_def split: option.splits)

theorem cancel_then_show_idle_screen_empty_witness:
  "idle_screens (pending 30) = []
   \<and> override_idle (pending 30) = None
   \<and> raised (show_idle_screen (cancel_idle_event (pending 30))) = None
   \<and> emitted (post (show_idle_screen (cancel_idle_event (pending 30)))) = []"
proof -
  have p: "idle_screens (pending 30) = []" "override_idle (pending 30) = None"
    "emitted (pending 30) = []"
    by (simp_all add: pending_eq fresh_def RemotePlatform_init_def)
  show ?thesis
    using cancel_then_show_idle_screen_empty [OF p(1) p(2), THEN conjunct2]
    by (simp add: p)
qed

end
